theory Spec2Isabelle
  imports Main
begin

section \<open>The matcher of \<open>src/lib/match-obs.ts\<close>\<close>

text \<open>
  \<open>matchObservable\<close> subscribes three handlers (\<open>next\<close>, \<open>error\<close>, \<open>complete\<close>) to an
  observable and settles a promise from them. The handlers share one mutable variable,
  \<open>expectedStep\<close>, and one operation, \<open>finalize\<close>. The model passes the state explicitly and
  records every call the handlers make to the outside (the matcher, the value printer,
  \<open>err.toString()\<close>, \<open>setTimeout\<close>, \<open>resolve\<close>, \<open>reject\<close>) in a trace, each entry stamped with
  the value \<open>expectedStep\<close> had when the call was made.

  HOL functions are pure: the matcher, the printer and \<open>toString\<close> cannot call back into
  the handlers. A handler therefore runs to its end before the next event is delivered,
  whether the observable delivers its events inside \<open>subscribe\<close> or on later turns.
\<close>

subsection \<open>Parameters, events, effects\<close>

text \<open>
  The parameters of \<open>matchObservable\<close> other than the observable itself. \<open>values\<close> is a
  keyword of Isabelle, so the array is \<open>values_arr\<close>.

  \<open>errToString\<close> stands for the call \<open>err.toString()\<close> on the value that the observable
  hands to \<open>error\<close>. That value is untyped: the producer may pass \<open>undefined\<close> or \<open>null\<close>,
  on which the call throws a \<open>TypeError\<close>. \<open>errToString p err\<close> is \<open>Some d\<close> when the call
  returns the string \<open>d\<close>, and \<open>None\<close> when it throws.
\<close>

record ('a, 'e) params =
  values_arr :: "'a list"
  expectComplete :: bool
  expectError :: bool
  matcher :: "'a \<Rightarrow> 'a \<Rightarrow> bool"
  valuePrinter :: "'a \<Rightarrow> string"
  errToString :: "'e \<Rightarrow> string option"

text \<open>
  What the outside can do to the matcher: the observable calls one of the three handlers,
  or the event loop takes a turn in which the callbacks queued by \<open>setTimeout(..., 0)\<close> run.
\<close>

datatype ('a, 'e) event =
    Next 'a
  | Error 'e
  | Complete
  | Timer_turn

datatype ('a, 'e) effect =
    Matcher_call 'a 'a
  | ValuePrinter_call 'a
  | ToString_call 'e
  | Message_built string
  | SetTimeout_call
  | Unsubscribe_call
  | Resolve_call
  | Reject_call string
  | Undefined_read
  | Handler_threw

record ('a, 'e) mstate =
  expectedStep :: int
  timers :: nat
  trace :: "(int \<times> ('a, 'e) effect) list"

definition emit :: "('a, 'e) effect \<Rightarrow> ('a, 'e) mstate \<Rightarrow> ('a, 'e) mstate" where
  "emit e s = s\<lparr>trace := trace s @ [(expectedStep s, e)]\<rparr>"

subsection \<open>Numbers in template strings\<close>

text \<open>
  \<open>${expectedStep}\<close> prints an integer in decimal, with a minus sign when negative.
  (JavaScript changes to exponent notation only from \<open>1e21\<close> on; the cursor stays within
  the length of an array, which is below \<open>2^32\<close>.)
\<close>

definition digit_char :: "nat \<Rightarrow> char" where
  "digit_char d = char_of (48 + d)"

fun nat_toString :: "nat \<Rightarrow> string" where
  "nat_toString n =
     (if n < 10 then [digit_char n] else nat_toString (n div 10) @ [digit_char (n mod 10)])"

definition number_toString :: "int \<Rightarrow> string" where
  "number_toString i =
     (if i < 0 then CHR ''-'' # nat_toString (nat (- i)) else nat_toString (nat i))"

subsection \<open>The array read\<close>

text \<open>
  \<open>values[expectedStep]\<close>: the element when the index is in range, \<open>undefined\<close> (here
  \<open>None\<close>) otherwise.
\<close>

definition values_at :: "('a, 'e) params \<Rightarrow> int \<Rightarrow> 'a option" where
  "values_at p i =
     (if 0 \<le> i \<and> i < int (length (values_arr p)) then Some (values_arr p ! nat i) else None)"

subsection \<open>finalize\<close>

text \<open>
  \<open>finalize(message?)\<close>: first \<open>expectedStep = -1\<close>, then the \<open>setTimeout\<close> that queues the
  unsubscribe, then \<open>reject(message)\<close> when the message is truthy (present and not the
  empty string) and \<open>resolve()\<close> otherwise.
\<close>

definition finalize :: "string option \<Rightarrow> ('a, 'e) mstate \<Rightarrow> ('a, 'e) mstate" where
  "finalize message s =
     (let s1 = s\<lparr>expectedStep := - 1\<rparr>;
          s2 = (emit SetTimeout_call s1)\<lparr>timers := timers s1 + 1\<rparr>
      in case message of
           None \<Rightarrow> emit Resolve_call s2
         | Some m \<Rightarrow> if m \<noteq> [] then emit (Reject_call m) s2 else emit Resolve_call s2)"

text \<open>
  A call \<open>finalize(msg)\<close> with a message: the argument is evaluated first (the printer
  calls are recorded by the caller), then \<open>finalize\<close> runs.
\<close>

definition finalize_with :: "string \<Rightarrow> ('a, 'e) mstate \<Rightarrow> ('a, 'e) mstate" where
  "finalize_with msg s = finalize (Some msg) (emit (Message_built msg) s)"

subsection \<open>The three handlers\<close>

definition too_many_message :: "('a, 'e) params \<Rightarrow> 'a \<Rightarrow> string" where
  "too_many_message p v = ''Too many values on observable: '' @ valuePrinter p v"

definition mismatch_message :: "('a, 'e) params \<Rightarrow> int \<Rightarrow> 'a \<Rightarrow> 'a \<Rightarrow> string" where
  "mismatch_message p i v expected =
     ''Values at index '' @ number_toString i @ '' are expected to match. Received:'' @
     [CHR 0x0A] @ valuePrinter p v @ [CHR 0x0A] @ ''Expected:'' @ [CHR 0x0A] @
     valuePrinter p expected"

definition errored_message :: "int \<Rightarrow> string \<Rightarrow> string" where
  "errored_message i d =
     ''Observable errored unexpectedly before emission index '' @ number_toString i @
     ''. Error: '' @ d"

definition completed_message :: "('a, 'e) params \<Rightarrow> int \<Rightarrow> string" where
  "completed_message p i =
     ''Observable completed unexpectedly after '' @ number_toString i @
     '' value emissions. '' @
     (if i < int (length (values_arr p)) then ''Missing values from observable.''
      else ''Too many values on observable.'')"

text \<open>
  \<open>next(value)\<close>. When the array read gives \<open>undefined\<close>, JavaScript would hand it to the
  matcher, a value outside \<open>T\<close>; the model records the read and goes no further. Lemma
  \<open>no_undefined_read\<close> below shows that no run reaches that branch.
\<close>

definition next_handler :: "('a, 'e) params \<Rightarrow> 'a \<Rightarrow> ('a, 'e) mstate \<Rightarrow> ('a, 'e) mstate" where
  "next_handler p v s =
     (if expectedStep s = - 1 then s
      else if expectedStep s \<ge> int (length (values_arr p)) then
        finalize_with (too_many_message p v) (emit (ValuePrinter_call v) s)
      else
        (case values_at p (expectedStep s) of
           None \<Rightarrow> emit Undefined_read s
         | Some expected \<Rightarrow>
             (let s1 = emit (Matcher_call v expected) s in
              if \<not> matcher p v expected then
                finalize_with (mismatch_message p (expectedStep s1) v expected)
                  (emit (ValuePrinter_call expected) (emit (ValuePrinter_call v) s1))
              else
                (let s2 = s1\<lparr>expectedStep := expectedStep s1 + 1\<rparr> in
                 if \<not> expectComplete p \<and> \<not> expectError p
                    \<and> expectedStep s2 = int (length (values_arr p))
                 then finalize None s2
                 else s2))))"

text \<open>
  \<open>error(err)\<close>. The message is the argument of \<open>finalize\<close>, so \<open>err.toString()\<close> is called
  before \<open>finalize\<close> is entered. When the call throws, the exception leaves the handler:
  \<open>finalize\<close> never runs, the cursor keeps its value, and neither \<open>setTimeout\<close> nor \<open>reject\<close>
  is called.
\<close>

definition error_handler :: "('a, 'e) params \<Rightarrow> 'e \<Rightarrow> ('a, 'e) mstate \<Rightarrow> ('a, 'e) mstate" where
  "error_handler p err s =
     (if expectedStep s = - 1 then s
      else if expectError p \<and> expectedStep s = int (length (values_arr p)) then
        finalize None s
      else
        (let s1 = emit (ToString_call err) s in
         case errToString p err of
           None \<Rightarrow> emit Handler_threw s1
         | Some d \<Rightarrow> finalize_with (errored_message (expectedStep s1) d) s1))"

definition complete_handler :: "('a, 'e) params \<Rightarrow> ('a, 'e) mstate \<Rightarrow> ('a, 'e) mstate" where
  "complete_handler p s =
     (if expectedStep s = - 1 then s
      else if expectedStep s = int (length (values_arr p)) then finalize None s
      else finalize_with (completed_message p (expectedStep s)) s)"

subsection \<open>The timer turn\<close>

text \<open>
  Every callback queued by \<open>setTimeout(() => subs.unsubscribe(), 0)\<close> runs, each calling
  \<open>unsubscribe\<close> once; the queue is empty afterwards. The event loop takes such a turn
  only when no code is running, hence after \<open>subscribe\<close> has returned and \<open>subs\<close> is
  assigned. A run may hold timer turns at any place; with an empty queue a turn does
  nothing.
\<close>

definition run_timers :: "('a, 'e) mstate \<Rightarrow> ('a, 'e) mstate" where
  "run_timers s =
     s\<lparr>timers := 0,
       trace := trace s @ replicate (timers s) (expectedStep s, Unsubscribe_call)\<rparr>"

subsection \<open>matchObs and the run of a stream\<close>

text \<open>
  \<open>matchObs\<close> starts with \<open>expectedStep = 0\<close> and subscribes; nothing else happens until the
  observable delivers an event.
\<close>

definition matchObs :: "('a, 'e) mstate" where
  "matchObs = \<lparr>expectedStep = 0, timers = 0, trace = []\<rparr>"

fun deliver :: "('a, 'e) params \<Rightarrow> ('a, 'e) mstate \<Rightarrow> ('a, 'e) event \<Rightarrow> ('a, 'e) mstate" where
  "deliver p s (Next v) = next_handler p v s"
| "deliver p s (Error err) = error_handler p err s"
| "deliver p s Complete = complete_handler p s"
| "deliver p s Timer_turn = run_timers s"

definition matchObservable :: "('a, 'e) params \<Rightarrow> ('a, 'e) event list \<Rightarrow> ('a, 'e) mstate" where
  "matchObservable p evs = foldl (deliver p) matchObs evs"

subsection \<open>The promise\<close>

text \<open>
  The promise returned by \<open>matchObservable\<close> is settled by the first call of \<open>resolve\<close> or
  \<open>reject\<close>; a promise ignores every later call.
\<close>

datatype promise = Pending | Resolved | Rejected string

fun is_settlement :: "('a, 'e) effect \<Rightarrow> bool" where
  "is_settlement Resolve_call = True"
| "is_settlement (Reject_call m) = True"
| "is_settlement _ = False"

definition settlements :: "('a, 'e) mstate \<Rightarrow> ('a, 'e) effect list" where
  "settlements s = filter is_settlement (map snd (trace s))"

definition promise_of :: "('a, 'e) mstate \<Rightarrow> promise" where
  "promise_of s =
     (case settlements s of
        [] \<Rightarrow> Pending
      | Reject_call m # _ \<Rightarrow> Rejected m
      | _ # _ \<Rightarrow> Resolved)"

definition count_effect :: "('a, 'e) effect \<Rightarrow> ('a, 'e) mstate \<Rightarrow> nat" where
  "count_effect e s = length (filter (\<lambda>x. snd x = e) (trace s))"

text \<open>
  The effects of a handler proper, as opposed to the unsubscribe that a timer turn runs.
\<close>

definition handler_effects :: "('a, 'e) mstate \<Rightarrow> (int \<times> ('a, 'e) effect) list" where
  "handler_effects s = filter (\<lambda>x. snd x \<noteq> Unsubscribe_call) (trace s)"

text \<open>
  Which value of \<open>expectedStep\<close> an effect may be stamped with: the calls made by
  \<open>finalize\<close> and by the timer come after \<open>expectedStep = -1\<close>, the calls made by a handler
  before it.
\<close>

fun stamp_ok :: "int \<Rightarrow> ('a, 'e) effect \<Rightarrow> bool" where
  "stamp_ok c SetTimeout_call = (c = - 1)"
| "stamp_ok c Unsubscribe_call = (c = - 1)"
| "stamp_ok c Resolve_call = (c = - 1)"
| "stamp_ok c (Reject_call m) = (c = - 1)"
| "stamp_ok c Undefined_read = False"
| "stamp_ok c _ = (c \<noteq> - 1)"

subsection \<open>A concrete configuration\<close>

text \<open>
  Natural numbers as values, compared with equality (the default matcher \<open>===\<close>) and
  printed in decimal (what \<open>JSON.stringify\<close> gives for them); errors are strings, and the
  \<open>toString()\<close> of a string is the string.
\<close>

definition example_params :: "bool \<Rightarrow> bool \<Rightarrow> nat list \<Rightarrow> (nat, string) params" where
  "example_params c e vs =
     \<lparr>values_arr = vs, expectComplete = c, expectError = e, matcher = (=),
      valuePrinter = nat_toString, errToString = Some\<rparr>"

text \<open>
  The same configuration for a producer that may also pass \<open>undefined\<close> to \<open>error\<close>: the
  error value \<open>None\<close> is \<open>undefined\<close>, on which \<open>toString()\<close> throws, and \<open>Some d\<close> is the
  string \<open>d\<close>.
\<close>

definition untyped_error_params ::
    "bool \<Rightarrow> bool \<Rightarrow> nat list \<Rightarrow> (nat, string option) params" where
  "untyped_error_params c e vs =
     \<lparr>values_arr = vs, expectComplete = c, expectError = e, matcher = (=),
      valuePrinter = nat_toString, errToString = (\<lambda>err. err)\<rparr>"

subsection \<open>Auxiliary notions\<close>

text \<open>What \<open>finalize\<close> does to the promise: \<open>reject\<close> for a truthy message, else \<open>resolve\<close>.\<close>

definition verdict :: "string option \<Rightarrow> ('a, 'e) effect" where
  "verdict message = (case message of None \<Rightarrow> Resolve_call
      | Some m \<Rightarrow> if m \<noteq> [] then Reject_call m else Resolve_call)"

text \<open>
  The state invariant: a finalized matcher has settled once, has called \<open>setTimeout\<close> once
  and has one unsubscribe either queued or done; a live one has a cursor within the
  array's bounds and has done none of these.
\<close>

definition cursor_inv :: "('a, 'e) params \<Rightarrow> ('a, 'e) mstate \<Rightarrow> bool" where
  "cursor_inv p s =
     (if expectedStep s = - 1
      then length (settlements s) = 1 \<and> count_effect SetTimeout_call s = 1
           \<and> count_effect Unsubscribe_call s + timers s = 1
      else 0 \<le> expectedStep s \<and> expectedStep s \<le> int (length (values_arr p))
           \<and> settlements s = [] \<and> count_effect SetTimeout_call s = 0
           \<and> count_effect Unsubscribe_call s = 0 \<and> timers s = 0)"

text \<open>Every entry of the trace carries a stamp that fits its effect.\<close>

definition stamps_inv :: "('a, 'e) mstate \<Rightarrow> bool" where
  "stamps_inv s = list_all (\<lambda>(c, e). stamp_ok c e) (trace s)"

section \<open>Basic facts\<close>

subsection \<open>What each operation does to the state\<close>

lemma emit_simps [simp]:
  "expectedStep (emit e s) = expectedStep s"
  "timers (emit e s) = timers s"
  "trace (emit e s) = trace s @ [(expectedStep s, e)]"
  by (simp_all add: emit_def)

lemma settlements_emit [simp]:
  "settlements (emit e s) = settlements s @ (if is_settlement e then [e] else [])"
  by (simp add: settlements_def)

lemma count_effect_emit [simp]:
  "count_effect x (emit e s) = count_effect x s + (if e = x then 1 else 0)"
  by (simp add: count_effect_def)

lemma settlements_update [simp]:
  "settlements (s\<lparr>expectedStep := c\<rparr>) = settlements s"
  "settlements (s\<lparr>timers := n\<rparr>) = settlements s"
  by (simp_all add: settlements_def)

lemma count_effect_update [simp]:
  "count_effect x (s\<lparr>expectedStep := c\<rparr>) = count_effect x s"
  "count_effect x (s\<lparr>timers := n\<rparr>) = count_effect x s"
  by (simp_all add: count_effect_def)

lemma is_settlement_verdict [simp]: "is_settlement (verdict m)"
  by (simp add: verdict_def split: option.split)

lemma finalize_simps [simp]:
  "expectedStep (finalize m s) = - 1"
  "timers (finalize m s) = timers s + 1"
  "trace (finalize m s) = trace s @ [(- 1, SetTimeout_call), (- 1, verdict m)]"
  by (simp_all add: finalize_def verdict_def Let_def split: option.split)

lemma settlements_finalize [simp]:
  "settlements (finalize m s) = settlements s @ [verdict m]"
  by (simp add: settlements_def)

lemma count_effect_finalize:
  "count_effect SetTimeout_call (finalize m s) = count_effect SetTimeout_call s + 1"
  "count_effect Unsubscribe_call (finalize m s) = count_effect Unsubscribe_call s"
  by (auto simp add: count_effect_def verdict_def split: option.split)

lemma finalize_with_simps [simp]:
  "expectedStep (finalize_with msg s) = - 1"
  "timers (finalize_with msg s) = timers s + 1"
  "trace (finalize_with msg s) =
     trace s @ [(expectedStep s, Message_built msg), (- 1, SetTimeout_call), (- 1, verdict (Some msg))]"
  "settlements (finalize_with msg s) = settlements s @ [verdict (Some msg)]"
  by (simp_all add: finalize_with_def)

lemma count_effect_finalize_with:
  "count_effect SetTimeout_call (finalize_with msg s) = count_effect SetTimeout_call s + 1"
  "count_effect Unsubscribe_call (finalize_with msg s) = count_effect Unsubscribe_call s"
  by (simp_all add: finalize_with_def count_effect_finalize)

lemma run_timers_simps [simp]:
  "expectedStep (run_timers s) = expectedStep s"
  "timers (run_timers s) = 0"
  "trace (run_timers s) = trace s @ replicate (timers s) (expectedStep s, Unsubscribe_call)"
  by (simp_all add: run_timers_def)

lemma settlements_run_timers [simp]: "settlements (run_timers s) = settlements s"
  by (simp add: settlements_def)

lemma count_effect_run_timers:
  "count_effect SetTimeout_call (run_timers s) = count_effect SetTimeout_call s"
  "count_effect Unsubscribe_call (run_timers s) = count_effect Unsubscribe_call s + timers s"
  by (simp_all add: count_effect_def)

lemma matchObservable_Nil [simp]: "matchObservable p [] = matchObs"
  by (simp add: matchObservable_def)

lemma matchObservable_snoc [simp]:
  "matchObservable p (evs @ [ev]) = deliver p (matchObservable p evs) ev"
  by (simp add: matchObservable_def)

lemma matchObservable_append:
  "matchObservable p (evs @ evs') = foldl (deliver p) (matchObservable p evs) evs'"
  by (simp add: matchObservable_def)

lemma matchObs_simps [simp]:
  "expectedStep matchObs = 0" "timers matchObs = 0" "trace matchObs = []"
  "settlements matchObs = []" "count_effect x matchObs = 0"
  by (simp_all add: matchObs_def settlements_def count_effect_def)

subsection \<open>The invariants hold in every run\<close>

lemma cursor_inv_next: "cursor_inv p s \<Longrightarrow> cursor_inv p (next_handler p v s)"
  by (auto simp add: cursor_inv_def next_handler_def values_at_def Let_def
        count_effect_finalize count_effect_finalize_with)

lemma cursor_inv_error: "cursor_inv p s \<Longrightarrow> cursor_inv p (error_handler p err s)"
  by (auto simp add: cursor_inv_def error_handler_def Let_def
        count_effect_finalize count_effect_finalize_with split: option.split)

lemma cursor_inv_complete: "cursor_inv p s \<Longrightarrow> cursor_inv p (complete_handler p s)"
  by (auto simp add: cursor_inv_def complete_handler_def
        count_effect_finalize count_effect_finalize_with)

lemma cursor_inv_timers: "cursor_inv p s \<Longrightarrow> cursor_inv p (run_timers s)"
  by (auto simp add: cursor_inv_def count_effect_run_timers)

lemma cursor_inv_deliver: "cursor_inv p s \<Longrightarrow> cursor_inv p (deliver p s ev)"
  by (cases ev) (simp_all add: cursor_inv_next cursor_inv_error cursor_inv_complete cursor_inv_timers)

lemma cursor_inv_run: "cursor_inv p (matchObservable p evs)"
  by (induction evs rule: rev_induct) (simp_all add: cursor_inv_def[of p matchObs] cursor_inv_deliver)

lemma stamps_inv_deliver:
  "cursor_inv p s \<Longrightarrow> stamps_inv s \<Longrightarrow> stamps_inv (deliver p s ev)"
  by (cases ev)
     (auto simp add: stamps_inv_def cursor_inv_def next_handler_def error_handler_def
        complete_handler_def values_at_def Let_def verdict_def list_all_iff
        split: if_splits option.split)

lemma stamps_inv_run: "stamps_inv (matchObservable p evs)"
proof (induction evs rule: rev_induct)
  case Nil
  show ?case by (simp add: stamps_inv_def)
next
  case (snoc ev evs)
  then show ?case by (simp add: stamps_inv_deliver cursor_inv_run)
qed

subsection \<open>The promise after a step\<close>

lemma promise_of_Nil: "settlements s = [] \<Longrightarrow> promise_of s = Pending"
  by (simp add: promise_of_def)

lemma promise_of_finalize_None:
  "settlements s = [] \<Longrightarrow> promise_of (finalize None s) = Resolved"
  by (simp add: promise_of_def verdict_def)

lemma promise_of_finalize_with:
  "settlements s = [] \<Longrightarrow> msg \<noteq> [] \<Longrightarrow> promise_of (finalize_with msg s) = Rejected msg"
  by (simp add: promise_of_def verdict_def)

lemma messages_nonempty [simp]:
  "too_many_message p v \<noteq> []"
  "mismatch_message p i v x \<noteq> []"
  "errored_message i d \<noteq> []"
  "completed_message p i \<noteq> []"
  by (simp_all add: too_many_message_def mismatch_message_def errored_message_def
        completed_message_def)

lemma live_state:
  assumes "expectedStep (matchObservable p evs) \<noteq> - 1"
  shows "settlements (matchObservable p evs) = []"
    and "0 \<le> expectedStep (matchObservable p evs)"
    and "expectedStep (matchObservable p evs) \<le> int (length (values_arr p))"
    and "timers (matchObservable p evs) = 0"
  using cursor_inv_run [of p evs] assms by (simp_all add: cursor_inv_def)

text \<open>One matched value: the cursor moves on, or the run is finalized with success.\<close>

lemma next_handler_match:
  assumes "expectedStep s = int k" "k < length (values_arr p)"
    "matcher p v (values_arr p ! k)"
  shows "next_handler p v s =
     (let s2 = (emit (Matcher_call v (values_arr p ! k)) s)\<lparr>expectedStep := int k + 1\<rparr>
      in if \<not> expectComplete p \<and> \<not> expectError p \<and> Suc k = length (values_arr p)
         then finalize None s2 else s2)"
  using assms by (auto simp add: next_handler_def values_at_def Let_def)

lemma matched_prefix:
  assumes "list_all2 (matcher p) vs (take (length vs) (values_arr p))"
    "length vs < length (values_arr p) \<or> expectComplete p \<or> expectError p"
  shows "expectedStep (matchObservable p (map Next vs)) = int (length vs)
       \<and> settlements (matchObservable p (map Next vs)) = []"
  using assms
proof (induction vs rule: rev_induct)
  case Nil
  show ?case by simp
next
  case (snoc v vs)
  from snoc.prems(1) have len: "length vs < length (values_arr p)"
    by (auto dest!: list_all2_lengthD)
  from snoc.prems(1) len have all: "list_all2 (matcher p) vs (take (length vs) (values_arr p))"
    and m: "matcher p v (values_arr p ! length vs)"
    by (simp_all add: take_Suc_conv_app_nth list_all2_append)
  from snoc.IH [OF all] len
  have IH: "expectedStep (matchObservable p (map Next vs)) = int (length vs)"
    "settlements (matchObservable p (map Next vs)) = []"
    by simp_all
  from snoc.prems(2) have "\<not> (\<not> expectComplete p \<and> \<not> expectError p \<and> Suc (length vs) = length (values_arr p))"
    by auto
  then show ?case
    using IH by (simp add: next_handler_match [OF IH(1) len m] Let_def)
qed

subsection \<open>A finalized matcher stays finalized\<close>

lemma deliver_finalized:
  assumes "expectedStep s = - 1"
  shows "expectedStep (deliver p s ev) = - 1"
    and "handler_effects (deliver p s ev) = handler_effects s"
    and "timers s = 0 \<Longrightarrow> timers (deliver p s ev) = 0"
  using assms
  by (cases ev; simp add: next_handler_def error_handler_def complete_handler_def
        handler_effects_def)+

lemma finalized_stays:
  "expectedStep s = - 1 \<Longrightarrow>
     expectedStep (foldl (deliver p) s evs) = - 1
     \<and> handler_effects (foldl (deliver p) s evs) = handler_effects s
     \<and> (timers s = 0 \<longrightarrow> timers (foldl (deliver p) s evs) = 0)"
proof (induction evs arbitrary: s)
  case Nil
  then show ?case by simp
next
  case (Cons ev evs)
  from Cons.IH [of "deliver p s ev"] Cons.prems show ?case
    by (simp add: deliver_finalized)
qed

lemma no_undefined_read: "(c, Undefined_read) \<notin> set (trace (matchObservable p evs))"
  using stamps_inv_run [of p evs] by (auto simp add: stamps_inv_def list_all_iff)

subsection \<open>The error handler, by the outcome of \<open>toString\<close>\<close>

text \<open>
  What the error handler does to a live matcher, by the outcome of \<open>err.toString()\<close>. When
  the call returns a string, the promise is resolved if \<open>expectError\<close> is set and the
  cursor is at the length of the array, and rejected with the message otherwise. When the
  call throws and the success branch is not taken, nothing is settled and the state keeps
  its cursor and its empty timer queue.
\<close>

lemma error_handler_describable:
  assumes "expectedStep (matchObservable p evs) \<noteq> - 1"
    and "errToString p err = Some d"
  shows "promise_of (matchObservable p (evs @ [Error err])) =
     (if expectError p \<and> expectedStep (matchObservable p evs) = int (length (values_arr p))
      then Resolved
      else Rejected (''Observable errored unexpectedly before emission index ''
             @ number_toString (expectedStep (matchObservable p evs))
             @ ''. Error: '' @ d))"
  using assms live_state(1) [OF assms(1)]
  by (simp add: error_handler_def promise_of_finalize_None promise_of_finalize_with)
     (simp add: errored_message_def)

lemma error_handler_throws:
  assumes "expectedStep (matchObservable p evs) \<noteq> - 1"
    and "errToString p err = None"
    and "\<not> (expectError p \<and> expectedStep (matchObservable p evs) = int (length (values_arr p)))"
  shows "promise_of (matchObservable p (evs @ [Error err])) = Pending"
    and "expectedStep (matchObservable p (evs @ [Error err])) = expectedStep (matchObservable p evs)"
    and "timers (matchObservable p (evs @ [Error err])) = 0"
  using assms live_state(1,4) [OF assms(1)]
  by (auto simp add: error_handler_def promise_of_Nil)

section \<open>The claims\<close>

subsection \<open>C1: an error is expected, the stream completes\<close>

text \<open>
  Claim C1 says that with \<open>expectError = true\<close> and \<open>expectComplete = false\<close> a stream that emits
  the expected values and then completes makes the matcher fail. \<open>complete\<close> never looks
  at either flag: with the cursor at the end of the array it calls \<open>finalize()\<close> without a
  message. For the expected values 1, 2, 3 and the stream 1, 2, 3, completion, the promise
  is resolved.
\<close>

theorem expectError_completion_resolves:
  "promise_of (matchObservable (example_params False True [1, 2, 3])
      [Next 1, Next 2, Next 3, Complete]) = Resolved"
  by code_simp

subsection \<open>C2: nothing expected at all\<close>

text \<open>
  Claim C2 says that with an empty array and both flags false the promise is resolved at
  once. \<open>matchObs\<close> only subscribes; the test that resolves without a terminal event sits in
  \<open>next\<close>, after a match. With no event the promise stays pending, and the first value is
  rejected as one too many.
\<close>

theorem empty_no_flags_stays_pending:
  "promise_of (matchObservable (example_params False False []) []) = Pending
   \<and> promise_of (matchObservable (example_params False False []) [Next 7]) =
       Rejected ''Too many values on observable: 7''"
  by code_simp

subsection \<open>C3: nothing happens after finalize\<close>

text \<open>
  Claim C3. In every run the promise is settled at most once. A handler called with
  \<open>expectedStep = -1\<close> returns the state as it is, so from a finalized state on, whatever
  events follow, the cursor stays \<open>-1\<close> and the trace gains no matcher call, no printer
  call, no message and no settlement (only the queued unsubscribe, when the timer runs).
  \<open>finalize\<close> sets the cursor to \<open>-1\<close> first: its two calls, \<open>setTimeout\<close> and the settlement,
  are stamped \<open>-1\<close>. In the trace of every run the settlements and timer calls carry the
  stamp \<open>-1\<close> and the matcher, printer and message entries a stamp other than \<open>-1\<close>.
\<close>

theorem finalized_guard:
  "length (settlements (matchObservable p evs)) \<le> 1
   \<and> (expectedStep s = - 1 \<longrightarrow>
        next_handler p v s = s \<and> error_handler p err s = s \<and> complete_handler p s = s)
   \<and> (expectedStep s = - 1 \<longrightarrow>
        expectedStep (foldl (deliver p) s evs') = - 1
        \<and> handler_effects (foldl (deliver p) s evs') = handler_effects s)
   \<and> expectedStep (finalize m s) = - 1
   \<and> (\<exists>r. is_settlement r
        \<and> trace (finalize m s) = trace s @ [(- 1, SetTimeout_call), (- 1, r)])
   \<and> list_all (\<lambda>(c, e). stamp_ok c e) (trace (matchObservable p evs))"
proof -
  have "length (settlements (matchObservable p evs)) \<le> 1"
    using cursor_inv_run [of p evs] by (simp add: cursor_inv_def split: if_splits)
  moreover have "expectedStep s = - 1 \<longrightarrow>
        next_handler p v s = s \<and> error_handler p err s = s \<and> complete_handler p s = s"
    by (simp add: next_handler_def error_handler_def complete_handler_def)
  moreover have "expectedStep s = - 1 \<longrightarrow>
        expectedStep (foldl (deliver p) s evs') = - 1
        \<and> handler_effects (foldl (deliver p) s evs') = handler_effects s"
    using finalized_stays [of s p evs'] by simp
  moreover have "\<exists>r. is_settlement r
        \<and> trace (finalize m s) = trace s @ [(- 1, SetTimeout_call), (- 1, r)]"
    by (rule exI [of _ "verdict m"]) simp
  moreover have "list_all (\<lambda>(c, e). stamp_ok c e) (trace (matchObservable p evs))"
    using stamps_inv_run [of p evs] by (simp add: stamps_inv_def)
  ultimately show ?thesis by simp
qed

theorem finalized_guard_witness:
  "expectedStep (matchObservable (example_params True False [1]) [Next 1, Complete]) = - 1
   \<and> next_handler (example_params True False [1]) 2
         (matchObservable (example_params True False [1]) [Next 1, Complete])
       = matchObservable (example_params True False [1]) [Next 1, Complete]
   \<and> handler_effects (foldl (deliver (example_params True False [1]))
         (matchObservable (example_params True False [1]) [Next 1, Complete])
         [Next 5, Error ''boom'', Timer_turn, Complete])
       = handler_effects (matchObservable (example_params True False [1]) [Next 1, Complete])
   \<and> length (settlements (matchObservable (example_params True False [1])
         [Next 1, Complete, Next 2, Error ''boom''])) \<le> 1"
proof -
  let ?p = "example_params True False [1]"
  let ?s = "matchObservable ?p [Next 1, Complete]"
  have h: "expectedStep ?s = - 1"
    by code_simp
  from finalized_guard [of ?p "[Next 1, Complete, Next 2, Error ''boom'']" ?s 2 "''boom''"
      "[Next 5, Error ''boom'', Timer_turn, Complete]" None] h
  show ?thesis by simp
qed

subsection \<open>C4: the expected values, then completion, with the default flags\<close>

text \<open>
  Claim C4. With the default flags (\<open>expectComplete = true\<close>, \<open>expectError = false\<close>), when the
  stream emits values that match the expected array one for one, in order, and then
  completes, the promise is resolved.
\<close>

theorem default_flags_complete_resolves:
  assumes "expectComplete p" and "\<not> expectError p"
    and "list_all2 (matcher p) vs (values_arr p)"
  shows "promise_of (matchObservable p (map Next vs @ [Complete])) = Resolved"
proof -
  have len: "length vs = length (values_arr p)"
    using assms(3) by (rule list_all2_lengthD)
  with assms have "expectedStep (matchObservable p (map Next vs)) = int (length vs)
       \<and> settlements (matchObservable p (map Next vs)) = []"
    by (intro matched_prefix) simp_all
  then show ?thesis
    using len by (simp add: complete_handler_def promise_of_finalize_None)
qed

theorem default_flags_complete_resolves_witness:
  "expectComplete (example_params True False [1, 2, 3])
   \<and> \<not> expectError (example_params True False [1, 2, 3])
   \<and> list_all2 (matcher (example_params True False [1, 2, 3])) [1, 2, 3]
         (values_arr (example_params True False [1, 2, 3]))
   \<and> promise_of (matchObservable (example_params True False [1, 2, 3])
         (map Next [1, 2, 3] @ [Complete])) = Resolved"
proof -
  let ?p = "example_params True False [1, 2, 3]"
  have h1: "expectComplete ?p" and h2: "\<not> expectError ?p"
    and h3: "list_all2 (matcher ?p) [1, 2, 3] (values_arr ?p)"
    by (simp_all add: example_params_def)
  from default_flags_complete_resolves [OF h1 h2 h3] h1 h2 h3 show ?thesis
    by simp
qed

subsection \<open>C5: a value that does not match\<close>

text \<open>
  Claim C5. When the matcher is live with its cursor at an index \<open>i\<close> inside the array and
  the next value \<open>v\<close> fails the matcher against \<open>values[i]\<close>, the promise is rejected, and the
  message holds the index \<open>i\<close>, the printed \<open>v\<close> and the printed \<open>values[i]\<close>.
\<close>

theorem mismatch_rejects_naming_index:
  assumes "expectedStep (matchObservable p evs) = int i"
    and "i < length (values_arr p)"
    and "\<not> matcher p v (values_arr p ! i)"
  shows "promise_of (matchObservable p (evs @ [Next v])) =
     Rejected (''Values at index '' @ nat_toString i @ '' are expected to match. Received:''
       @ [CHR 0x0A] @ valuePrinter p v @ [CHR 0x0A] @ ''Expected:'' @ [CHR 0x0A]
       @ valuePrinter p (values_arr p ! i))"
proof -
  let ?s = "matchObservable p evs"
  have live: "expectedStep ?s \<noteq> - 1"
    using assms(1) by simp
  have "next_handler p v ?s =
      finalize_with (mismatch_message p (int i) v (values_arr p ! i))
        (emit (ValuePrinter_call (values_arr p ! i))
          (emit (ValuePrinter_call v) (emit (Matcher_call v (values_arr p ! i)) ?s)))"
    using assms by (simp add: next_handler_def values_at_def Let_def)
  moreover have "mismatch_message p (int i) v (values_arr p ! i) =
      ''Values at index '' @ nat_toString i @ '' are expected to match. Received:''
       @ [CHR 0x0A] @ valuePrinter p v @ [CHR 0x0A] @ ''Expected:'' @ [CHR 0x0A]
       @ valuePrinter p (values_arr p ! i)"
    by (simp add: mismatch_message_def number_toString_def)
  ultimately show ?thesis
    using live_state(1) [OF live]
    by (simp add: promise_of_finalize_with del: nat_toString.simps)
qed

theorem mismatch_rejects_naming_index_witness:
  "expectedStep (matchObservable (example_params True False [1, 2, 3]) [Next 1, Next 2]) = int 2
   \<and> 2 < length (values_arr (example_params True False [1, 2, 3]))
   \<and> \<not> matcher (example_params True False [1, 2, 3]) 4
         (values_arr (example_params True False [1, 2, 3]) ! 2)
   \<and> promise_of (matchObservable (example_params True False [1, 2, 3])
         ([Next 1, Next 2] @ [Next 4])) =
       Rejected (''Values at index 2 are expected to match. Received:'' @ [CHR 0x0A] @ ''4''
         @ [CHR 0x0A] @ ''Expected:'' @ [CHR 0x0A] @ ''3'')"
proof -
  let ?p = "example_params True False [1, 2, 3]"
  have h1: "expectedStep (matchObservable ?p [Next 1, Next 2]) = int 2"
    by code_simp
  have h2: "2 < length (values_arr ?p)" and h3: "\<not> matcher ?p 4 (values_arr ?p ! 2)"
    by (simp_all add: example_params_def)
  have "promise_of (matchObservable ?p ([Next 1, Next 2] @ [Next 4])) =
     Rejected (''Values at index '' @ nat_toString 2 @ '' are expected to match. Received:''
       @ [CHR 0x0A] @ valuePrinter ?p 4 @ [CHR 0x0A] @ ''Expected:'' @ [CHR 0x0A]
       @ valuePrinter ?p (values_arr ?p ! 2))"
    by (rule mismatch_rejects_naming_index [OF h1 h2 h3])
  also have "\<dots> = Rejected (''Values at index 2 are expected to match. Received:''
       @ [CHR 0x0A] @ ''4'' @ [CHR 0x0A] @ ''Expected:'' @ [CHR 0x0A] @ ''3'')"
    by code_simp
  finally show ?thesis using h1 h2 h3 by simp
qed

subsection \<open>C6: a value after the last expected one\<close>

text \<open>
  Claim C6. When the matcher is live and its cursor is at or past the length of the
  array, a value \<open>v\<close> makes the promise rejected with the message
  \<open>Too many values on observable: \<close> followed by the printed \<open>v\<close>.
\<close>

theorem extra_value_rejects_too_many:
  assumes "expectedStep (matchObservable p evs) \<noteq> - 1"
    and "int (length (values_arr p)) \<le> expectedStep (matchObservable p evs)"
  shows "promise_of (matchObservable p (evs @ [Next v])) =
     Rejected (''Too many values on observable: '' @ valuePrinter p v)"
proof -
  let ?s = "matchObservable p evs"
  have "next_handler p v ?s =
      finalize_with (too_many_message p v) (emit (ValuePrinter_call v) ?s)"
    using assms by (simp add: next_handler_def)
  then show ?thesis
    using live_state(1) [OF assms(1)]
    by (simp add: promise_of_finalize_with) (simp add: too_many_message_def)
qed

theorem extra_value_rejects_too_many_witness:
  "expectedStep (matchObservable (example_params True False [1]) [Next 1]) \<noteq> - 1
   \<and> int (length (values_arr (example_params True False [1])))
       \<le> expectedStep (matchObservable (example_params True False [1]) [Next 1])
   \<and> promise_of (matchObservable (example_params True False [1]) ([Next 1] @ [Next 12])) =
       Rejected ''Too many values on observable: 12''"
proof -
  let ?p = "example_params True False [1]"
  have h1: "expectedStep (matchObservable ?p [Next 1]) \<noteq> - 1"
    and h2: "int (length (values_arr ?p)) \<le> expectedStep (matchObservable ?p [Next 1])"
    by code_simp+
  have "promise_of (matchObservable ?p ([Next 1] @ [Next 12])) =
     Rejected (''Too many values on observable: '' @ valuePrinter ?p 12)"
    by (rule extra_value_rejects_too_many [OF h1 h2])
  also have "\<dots> = Rejected ''Too many values on observable: 12''"
    by code_simp
  finally show ?thesis using h1 h2 by simp
qed

subsection \<open>C7: no terminal event expected\<close>

text \<open>
  Claim C7. With a non-empty expected array and both flags false, the promise is resolved
  by the value that matches the last expected one: it is still pending after all the
  values but the last, and resolved after the last, with no terminal event delivered.
\<close>

theorem no_flags_resolves_at_last_value:
  assumes "values_arr p \<noteq> []" and "\<not> expectComplete p" and "\<not> expectError p"
    and "list_all2 (matcher p) vs (values_arr p)"
  shows "promise_of (matchObservable p (map Next (butlast vs))) = Pending
       \<and> promise_of (matchObservable p (map Next vs)) = Resolved"
proof -
  have len: "length vs = length (values_arr p)"
    using assms(4) by (rule list_all2_lengthD)
  with assms(1) have ne: "vs \<noteq> []" by auto
  let ?k = "length (butlast vs)"
  have k: "?k < length (values_arr p)" "Suc ?k = length (values_arr p)"
    using assms(1) len by (simp_all add: Suc_pred')
  have "list_all2 (matcher p) (butlast vs) (take ?k (values_arr p))"
    using assms(4) by (simp add: butlast_conv_take list_all2_takeI)
  with k(1) have pre: "expectedStep (matchObservable p (map Next (butlast vs))) = int ?k"
     "settlements (matchObservable p (map Next (butlast vs))) = []"
    using matched_prefix [of p "butlast vs"] by simp_all
  have m: "matcher p (last vs) (values_arr p ! ?k)"
  proof -
    have "matcher p (vs ! ?k) (values_arr p ! ?k)"
      using k(1) len by (intro list_all2_nthD [OF assms(4)]) simp
    then show ?thesis using ne by (simp add: last_conv_nth)
  qed
  have "vs = butlast vs @ [last vs]"
    using ne by simp
  then have "matchObservable p (map Next vs) = matchObservable p (map Next (butlast vs @ [last vs]))"
    by (rule arg_cong)
  then have "matchObservable p (map Next vs) =
      next_handler p (last vs) (matchObservable p (map Next (butlast vs)))"
    by simp
  then have "promise_of (matchObservable p (map Next vs)) = Resolved"
    using assms(2,3) k(2) pre(2)
    by (simp add: next_handler_match [OF pre(1) k(1) m] Let_def promise_of_finalize_None)
  with pre(2) show ?thesis by (simp add: promise_of_Nil)
qed

theorem no_flags_resolves_at_last_value_witness:
  "values_arr (example_params False False [1, 2, 3]) \<noteq> []
   \<and> \<not> expectComplete (example_params False False [1, 2, 3])
   \<and> \<not> expectError (example_params False False [1, 2, 3])
   \<and> list_all2 (matcher (example_params False False [1, 2, 3])) [1, 2, 3]
         (values_arr (example_params False False [1, 2, 3]))
   \<and> promise_of (matchObservable (example_params False False [1, 2, 3])
         (map Next (butlast [1, 2, 3]))) = Pending
   \<and> promise_of (matchObservable (example_params False False [1, 2, 3])
         (map Next [1, 2, 3])) = Resolved"
proof -
  let ?p = "example_params False False [1, 2, 3]"
  have h1: "values_arr ?p \<noteq> []" and h2: "\<not> expectComplete ?p" and h3: "\<not> expectError ?p"
    and h4: "list_all2 (matcher ?p) [1, 2, 3] (values_arr ?p)"
    by (simp_all add: example_params_def)
  from no_flags_resolves_at_last_value [OF h1 h2 h3 h4] h1 h2 h3 h4 show ?thesis
    by simp
qed

subsection \<open>C8: the error handler\<close>

text \<open>
  Claim C8 says that an error delivered to a live matcher, outside the case where
  \<open>expectError\<close> is set and the cursor is at the length of the array, always makes the
  matcher fail with the message \<open>Observable errored unexpectedly before emission index\<close>,
  the cursor, and the error's description. With the expected values 1, 2 and the default
  flags, after the value 1 the producer calls \<open>error(undefined)\<close>: \<open>err.toString()\<close> throws
  before \<open>finalize\<close> is reached, so the promise is still pending, the cursor is still 1 and
  no unsubscribe is queued. The same run with the error \<open>boom\<close> is rejected with the
  message.
\<close>

theorem error_undefined_leaves_promise_pending:
  "promise_of (matchObservable (untyped_error_params True False [1, 2])
      [Next 1, Error None]) = Pending
   \<and> expectedStep (matchObservable (untyped_error_params True False [1, 2])
      [Next 1, Error None]) = 1
   \<and> timers (matchObservable (untyped_error_params True False [1, 2])
      [Next 1, Error None]) = 0
   \<and> promise_of (matchObservable (untyped_error_params True False [1, 2])
      [Next 1, Error (Some ''boom'')]) =
       Rejected ''Observable errored unexpectedly before emission index 1. Error: boom''"
  by code_simp

subsection \<open>C9: the range of the cursor\<close>

text \<open>
  Claim C9. After any sequence of events the cursor is \<open>-1\<close> or lies between 0 and the
  length of the array, both included. So \<open>complete\<close>, called in a state that a run can
  reach, never takes the branch of a cursor past the length: it does what the handler
  would do with the wording \<open>Missing values from observable.\<close> as its only message.
\<close>

theorem cursor_range:
  "(expectedStep (matchObservable p evs) = - 1
     \<or> (0 \<le> expectedStep (matchObservable p evs)
        \<and> expectedStep (matchObservable p evs) \<le> int (length (values_arr p))))
   \<and> complete_handler p (matchObservable p evs) =
       (if expectedStep (matchObservable p evs) = - 1 then matchObservable p evs
        else if expectedStep (matchObservable p evs) = int (length (values_arr p))
        then finalize None (matchObservable p evs)
        else finalize_with
          (''Observable completed unexpectedly after ''
            @ number_toString (expectedStep (matchObservable p evs))
            @ '' value emissions. Missing values from observable.'')
          (matchObservable p evs))"
  using cursor_inv_run [of p evs]
  by (auto simp add: cursor_inv_def complete_handler_def completed_message_def)

theorem cursor_range_witness:
  "expectedStep (matchObservable (example_params True True [1]) [Next 1, Timer_turn]) = 1
   \<and> (expectedStep (matchObservable (example_params True True [1]) [Next 1, Timer_turn]) = - 1
     \<or> (0 \<le> expectedStep (matchObservable (example_params True True [1]) [Next 1, Timer_turn])
        \<and> expectedStep (matchObservable (example_params True True [1]) [Next 1, Timer_turn])
           \<le> int (length (values_arr (example_params True True [1])))))"
proof -
  have "expectedStep (matchObservable (example_params True True [1]) [Next 1, Timer_turn]) = 1"
    by code_simp
  with cursor_range [of "example_params True True [1]" "[Next 1, Timer_turn]"]
  show ?thesis by simp
qed

subsection \<open>C10: the unsubscribe\<close>

text \<open>
  Claim C10. A call of \<open>finalize\<close> queues one timer callback and calls \<open>unsubscribe\<close> itself
  not at all. In every run \<open>setTimeout\<close> has been called once if the matcher is finalized
  and never otherwise, and the unsubscribes done plus those still queued number the same:
  \<open>unsubscribe\<close> is called at most once and never before \<open>finalize\<close> has run. Once the
  matcher is finalized and the timers have had their turn, \<open>unsubscribe\<close> has been called
  exactly once, whatever follows.
\<close>

theorem unsubscribe_once_after_finalize:
  "timers (finalize m s) = timers s + 1
   \<and> count_effect SetTimeout_call (finalize m s) = count_effect SetTimeout_call s + 1
   \<and> count_effect Unsubscribe_call (finalize m s) = count_effect Unsubscribe_call s
   \<and> count_effect SetTimeout_call (matchObservable p evs) =
        (if expectedStep (matchObservable p evs) = - 1 then 1 else 0)
   \<and> count_effect Unsubscribe_call (matchObservable p evs) + timers (matchObservable p evs) =
        (if expectedStep (matchObservable p evs) = - 1 then 1 else 0)
   \<and> (expectedStep (matchObservable p evs) = - 1 \<longrightarrow>
        count_effect Unsubscribe_call (matchObservable p (evs @ Timer_turn # evs')) = 1)"
proof -
  let ?s = "matchObservable p evs"
  let ?t = "matchObservable p (evs @ Timer_turn # evs')"
  have a: "count_effect SetTimeout_call ?s = (if expectedStep ?s = - 1 then 1 else 0)"
    and b: "count_effect Unsubscribe_call ?s + timers ?s = (if expectedStep ?s = - 1 then 1 else 0)"
    using cursor_inv_run [of p evs] by (simp_all add: cursor_inv_def)
  have c: "count_effect Unsubscribe_call ?t = 1" if fin: "expectedStep ?s = - 1"
  proof -
    have t: "?t = foldl (deliver p) (run_timers ?s) evs'"
      by (simp add: matchObservable_def)
    have "expectedStep ?t = - 1 \<and> timers ?t = 0"
      using finalized_stays [of "run_timers ?s" p evs'] fin by (simp add: t)
    with cursor_inv_run [of p "evs @ Timer_turn # evs'"] show ?thesis
      by (simp add: cursor_inv_def)
  qed
  from a b c show ?thesis
    by (simp add: count_effect_finalize)
qed

theorem unsubscribe_once_after_finalize_witness:
  "expectedStep (matchObservable (example_params True False [1]) [Next 1, Complete]) = - 1
   \<and> count_effect Unsubscribe_call
        (matchObservable (example_params True False [1]) [Next 1, Complete]) = 0
   \<and> timers (matchObservable (example_params True False [1]) [Next 1, Complete]) = 1
   \<and> count_effect Unsubscribe_call (matchObservable (example_params True False [1])
        ([Next 1, Complete] @ Timer_turn # [Next 3, Timer_turn, Complete])) = 1"
proof -
  let ?p = "example_params True False [1]"
  let ?s = "matchObservable ?p [Next 1, Complete]"
  have h: "expectedStep ?s = - 1" and u: "count_effect Unsubscribe_call ?s = 0"
    by code_simp+
  from unsubscribe_once_after_finalize [of None ?s ?p "[Next 1, Complete]"
      "[Next 3, Timer_turn, Complete]"] h u
  show ?thesis by simp
qed

end
